theory Spec2Isabelle
  imports Main
begin

section \<open>The Simon game engine of src/app/game/simon/page.tsx\<close>

text \<open>
  The component keeps its data in React state variables, one mutable ref and the
  browser's timer table. The model is one record holding all of that, and every
  handler and every timer callback is a function from the record to the record.

  \<^item> A handler reads the state of the render it was created in. React renders again
    after every event that changed state, so a user handler reads the current record.
  \<^item> A timer callback reads the variables its closure captured when the timer was
    armed (they are the arguments of the \<open>callback\<close> constructors) and writes to the
    current record. The ref \<open>isSequenceCancelledRef\<close> and the timer table are read live.
  \<^item> \<open>Math.floor(Math.random() * buttons)\<close> is an argument \<open>r\<close> of the operation
    that draws, constrained to \<open>0 \<le> r < buttons\<close> by the step function.
  \<^item> JavaScript numbers that hold indices, rounds and scores are \<open>int\<close>; an array
    read out of range gives \<open>undefined\<close>, here \<open>None\<close>.
  \<^item> Tone synthesis (\<open>playTone\<close>, \<open>playErrorSound\<close>) writes nothing of the engine's
    state and is left to the audio collaborator.
\<close>

subsection \<open>Data\<close>

datatype GameState = idle | showing | input | success | failure

datatype Difficulty = easy | medium | hard

text \<open>\<open>DIFFICULTY_CONFIG[d].buttons\<close>\<close>

fun buttons :: "Difficulty \<Rightarrow> int" where
  "buttons easy = 4"
| "buttons medium = 7"
| "buttons hard = 10"

text \<open>
  The closures handed to \<open>setInterval\<close> and \<open>setTimeout\<close>, each with the variables it
  captured. \<open>SequenceStep seq index\<close> is the interval of \<open>showSequence\<close> (\<open>index\<close> is its
  mutable local counter); \<open>HighlightClear\<close> and \<open>EnterInput\<close> are its 400 ms and 600 ms
  timeouts. \<open>PressClear\<close>, \<open>StrictGameOver\<close>, \<open>ReplaySequence\<close> and \<open>NextRound\<close> are the
  timeouts of \<open>handleButtonClick\<close>; \<open>RestartShow\<close> is the 50 ms timeout of \<open>resetGame\<close>.
  The \<open>nat option\<close> argument is the \<open>sequenceInterval\<close> that the captured \<open>showSequence\<close>
  closed over.
\<close>

datatype callback =
    SequenceStep "int list" nat
  | HighlightClear
  | EnterInput
  | PressClear
  | StrictGameOver
  | ReplaySequence "int list" "nat option"
  | NextRound int "int list" Difficulty "nat option"
  | RestartShow "int list" "nat option"

text \<open>A pending timer: its handle, the time it is due (ms) and its callback.\<close>

type_synonym timer = "nat \<times> nat \<times> callback"

record simon =
  gameState :: GameState
  difficulty :: Difficulty
  sequence :: "int list"
  playerInput :: "int list"
  currentRound :: int
  bestScore :: int
  showingIndex :: int
  strictMode :: bool
  sequenceInterval :: "nat option"
  buttonPressTimeout :: "nat option"
  isSequenceCancelled :: bool
  localStorage :: "Difficulty \<Rightarrow> int option"
  timers :: "timer list"
  clock :: nat
  nextHandle :: nat

text \<open>
  \<open>localStorage\<close> maps the key \<open>simon-best-<difficulty>\<close> to the stored number: the code
  writes \<open>currentRound.toString()\<close> and reads with \<open>parseInt\<close>, which are inverse on
  the integers written. \<open>timers\<close> is the browser's timer table, kept in firing order.
\<close>

subsection \<open>Arrays and timers\<close>

text \<open>JavaScript \<open>xs[i]\<close> for \<open>i \<ge> 0\<close>: \<open>undefined\<close> out of range.\<close>

definition arrayGet :: "'a list \<Rightarrow> nat \<Rightarrow> 'a option" where
  "arrayGet xs i = (if i < length xs then Some (xs ! i) else None)"

text \<open>A timer joins the table behind every timer that is due no later than it.\<close>

fun enqueue :: "timer \<Rightarrow> timer list \<Rightarrow> timer list" where
  "enqueue t [] = [t]"
| "enqueue t (u # us) =
     (if fst (snd t) < fst (snd u) then t # u # us else u # enqueue t us)"

text \<open>
  \<open>setTimeout(cb, delay)\<close> and \<open>setInterval(cb, delay)\<close>: the handle returned is
  \<open>nextHandle\<close> of the state before (handles are positive, so a handle is truthy).
\<close>

definition setTimer :: "nat \<Rightarrow> callback \<Rightarrow> simon \<Rightarrow> simon" where
  "setTimer delay cb s =
     s\<lparr>timers := enqueue (nextHandle s, clock s + delay, cb) (timers s),
       nextHandle := Suc (nextHandle s)\<rparr>"

text \<open>
  \<open>if (h) clearInterval(h)\<close> and \<open>if (h) clearTimeout(h)\<close>: the timer with that handle
  leaves the table; nothing happens for \<open>null\<close> or for a handle that is not pending.
\<close>

definition removeTimer :: "nat option \<Rightarrow> timer list \<Rightarrow> timer list" where
  "removeTimer ho ts =
     (case ho of None \<Rightarrow> ts | Some h \<Rightarrow> filter (\<lambda>t. fst t \<noteq> h) ts)"

definition clearTimer :: "nat option \<Rightarrow> simon \<Rightarrow> simon" where
  "clearTimer ho s = s\<lparr>timers := removeTimer ho (timers s)\<rparr>"

subsection \<open>The handlers\<close>

text \<open>\<open>showSequence(seq)\<close>, with the \<open>sequenceInterval\<close> its closure holds.\<close>

definition showSequence :: "nat option \<Rightarrow> int list \<Rightarrow> simon \<Rightarrow> simon" where
  "showSequence siv seq s =
     (let s1 = s\<lparr>showingIndex := - 1, isSequenceCancelled := False\<rparr>;
          s2 = clearTimer siv s1;
          interval = nextHandle s2;
          s3 = setTimer 700 (SequenceStep seq 0) s2
      in s3\<lparr>sequenceInterval := Some interval\<rparr>)"

definition startGame :: "int \<Rightarrow> simon \<Rightarrow> simon" where
  "startGame r s =
     (let newSequence = [r]
      in showSequence (sequenceInterval s) newSequence
           (s\<lparr>gameState := showing, currentRound := 1, playerInput := [],
              sequence := newSequence\<rparr>))"

definition handleButtonClick :: "int \<Rightarrow> simon \<Rightarrow> simon" where
  "handleButtonClick buttonIndex s =
     (if gameState s \<noteq> input then s
      else
        let s1 = clearTimer (buttonPressTimeout s) (s\<lparr>showingIndex := buttonIndex\<rparr>);
            timeout = nextHandle s1;
            s2 = (setTimer 150 PressClear s1)\<lparr>buttonPressTimeout := Some timeout\<rparr>;
            newInput = playerInput s @ [buttonIndex];
            s3 = s2\<lparr>playerInput := newInput\<rparr>
        in
          if arrayGet newInput (length newInput - 1)
               \<noteq> arrayGet (sequence s) (length newInput - 1)
          then
            (if strictMode s
             then setTimer 1500 StrictGameOver (s3\<lparr>gameState := failure\<rparr>)
             else setTimer 1500 (ReplaySequence (sequence s) (sequenceInterval s))
                    (s3\<lparr>gameState := failure\<rparr>))
          else if length newInput = length (sequence s)
          then setTimer 800
                 (NextRound (currentRound s) (sequence s) (difficulty s) (sequenceInterval s))
                 (s3\<lparr>gameState := success\<rparr>)
          else s3)"

definition resetGame :: "int \<Rightarrow> simon \<Rightarrow> simon" where
  "resetGame r s =
     (let s1 = s\<lparr>isSequenceCancelled := True\<rparr>;
          s2 = (case sequenceInterval s of
                  None \<Rightarrow> s1
                | Some h \<Rightarrow> (clearTimer (Some h) s1)\<lparr>sequenceInterval := None\<rparr>);
          s3 = (case buttonPressTimeout s of
                  None \<Rightarrow> s2
                | Some h \<Rightarrow> (clearTimer (Some h) s2)\<lparr>buttonPressTimeout := None\<rparr>);
          s4 = s3\<lparr>showingIndex := - 1, playerInput := [], currentRound := 1\<rparr>
      in
        if gameState s \<noteq> idle
        then
          (let newSequence = [r]
           in setTimer 50 (RestartShow newSequence (sequenceInterval s))
                (s4\<lparr>sequence := newSequence, gameState := showing\<rparr>))
        else s4\<lparr>gameState := idle, currentRound := 0, sequence := []\<rparr>)"

definition goToMenu :: "simon \<Rightarrow> simon" where
  "goToMenu s =
     (let s1 = s\<lparr>isSequenceCancelled := True\<rparr>;
          s2 = (case sequenceInterval s of
                  None \<Rightarrow> s1
                | Some h \<Rightarrow> (clearTimer (Some h) s1)\<lparr>sequenceInterval := None\<rparr>);
          s3 = (case buttonPressTimeout s of
                  None \<Rightarrow> s2
                | Some h \<Rightarrow> (clearTimer (Some h) s2)\<lparr>buttonPressTimeout := None\<rparr>)
      in s3\<lparr>gameState := idle, currentRound := 0, sequence := [], playerInput := [],
            showingIndex := - 1\<rparr>)"

subsection \<open>The timer callbacks\<close>

text \<open>
  \<open>runCallback h cb r s\<close> runs the callback \<open>cb\<close> of the timer with handle \<open>h\<close>, after
  the timer has left the table and the clock has reached the time it runs. An interval
  that is not cleared by its own callback returns to the table under the same handle,
  due one period after it ran. \<open>r\<close> is the random index \<open>NextRound\<close> draws.
\<close>

fun runCallback :: "nat \<Rightarrow> callback \<Rightarrow> int \<Rightarrow> simon \<Rightarrow> simon" where
  "runCallback h (SequenceStep seq index) r s =
     (if isSequenceCancelled s then s\<lparr>sequenceInterval := None\<rparr>
      else if index < length seq
      then
        (let s1 = setTimer 400 HighlightClear (s\<lparr>showingIndex := seq ! index\<rparr>)
         in s1\<lparr>timers := enqueue (h, clock s + 700, SequenceStep seq (Suc index)) (timers s1)\<rparr>)
      else setTimer 600 EnterInput (s\<lparr>sequenceInterval := None\<rparr>))"
| "runCallback h HighlightClear r s =
     (if \<not> isSequenceCancelled s then s\<lparr>showingIndex := - 1\<rparr> else s)"
| "runCallback h EnterInput r s =
     (if \<not> isSequenceCancelled s then s\<lparr>gameState := input\<rparr> else s)"
| "runCallback h PressClear r s = s\<lparr>showingIndex := - 1\<rparr>"
| "runCallback h StrictGameOver r s =
     s\<lparr>gameState := idle, currentRound := 0, sequence := [], playerInput := []\<rparr>"
| "runCallback h (ReplaySequence seq siv) r s =
     showSequence siv seq (s\<lparr>playerInput := [], gameState := showing\<rparr>)"
| "runCallback h (NextRound round seq dif siv) r s =
     (let nextRound = round + 1;
          newSequence = seq @ [r]
      in showSequence siv newSequence
           (s\<lparr>currentRound := nextRound, sequence := newSequence, playerInput := [],
              gameState := showing\<rparr>))"
| "runCallback h (RestartShow newSequence siv) r s = showSequence siv newSequence s"

text \<open>The range of the index a callback draws (only \<open>NextRound\<close> draws one).\<close>

fun drawOk :: "callback \<Rightarrow> int \<Rightarrow> bool" where
  "drawOk (NextRound round seq dif siv) r = (0 \<le> r \<and> r < buttons dif)"
| "drawOk cb r = True"

subsection \<open>The effects\<close>

text \<open>
  The effects run after a render, with the variables of that render (\<open>snap\<close>), and
  write to the current state. The first loads the stored score when \<open>difficulty\<close> has
  changed, the second stores the round when it exceeds \<open>bestScore\<close>.
\<close>

definition loadBestEffect :: "simon \<Rightarrow> simon \<Rightarrow> simon" where
  "loadBestEffect snap s =
     (case localStorage s (difficulty snap) of
        None \<Rightarrow> s
      | Some saved \<Rightarrow> s\<lparr>bestScore := saved\<rparr>)"

definition saveBestEffect :: "simon \<Rightarrow> simon \<Rightarrow> simon" where
  "saveBestEffect snap s =
     (if currentRound snap > bestScore snap
      then s\<lparr>bestScore := currentRound snap,
             localStorage := (localStorage s)(difficulty snap := Some (currentRound snap))\<rparr>
      else s)"

text \<open>
  The last effect of the component only returns a cleanup function, which clears the
  \<open>sequenceInterval\<close> and the \<open>buttonPressTimeout\<close> of the render it was created in. Its
  dependencies are these two variables, so React calls the cleanup of the previous
  render whenever one of them has changed (and on unmount, which ends the game).
\<close>

definition cleanupEffect :: "simon \<Rightarrow> simon \<Rightarrow> simon" where
  "cleanupEffect snap s =
     clearTimer (buttonPressTimeout snap) (clearTimer (sequenceInterval snap) s)"

text \<open>
  \<open>commit old new\<close>: the render after an event took the state from \<open>old\<close> to \<open>new\<close>.
  An effect runs when one of its dependencies changed, the cleanups of the previous
  render first. When the first pass changed \<open>bestScore\<close>, React renders again and the
  second effect runs once more; after that pass \<open>currentRound \<le> bestScore\<close>, so a
  third pass would change nothing.
\<close>

definition commit :: "simon \<Rightarrow> simon \<Rightarrow> simon" where
  "commit old new =
     (let s0 = (if sequenceInterval new \<noteq> sequenceInterval old
                   \<or> buttonPressTimeout new \<noteq> buttonPressTimeout old
                then cleanupEffect old new else new);
          s1 = (if difficulty new \<noteq> difficulty old then loadBestEffect new s0 else s0);
          s2 = (if currentRound new \<noteq> currentRound old \<or> bestScore new \<noteq> bestScore old
                   \<or> difficulty new \<noteq> difficulty old
                then saveBestEffect new s1 else s1)
      in if bestScore s2 \<noteq> bestScore new then saveBestEffect s2 s2 else s2)"

text \<open>The first render: the initial values of \<open>useState\<close>, then the effects.\<close>

definition mount :: "(Difficulty \<Rightarrow> int option) \<Rightarrow> simon" where
  "mount stored =
     (let s0 = \<lparr>gameState = idle, difficulty = easy, sequence = [], playerInput = [],
                currentRound = 0, bestScore = 0, showingIndex = - 1, strictMode = False,
                sequenceInterval = None, buttonPressTimeout = None,
                isSequenceCancelled = False, localStorage = stored, timers = [],
                clock = 0, nextHandle = 1\<rparr>;
          s1 = loadBestEffect s0 s0;
          s2 = saveBestEffect s0 s1
      in if bestScore s2 \<noteq> bestScore s0 then saveBestEffect s2 s2 else s2)"

subsection \<open>Events\<close>

text \<open>
  What the player can do. The menu (difficulty buttons, strict-mode checkbox, start
  button) is rendered only while \<open>gameState\<close> is \<open>idle\<close>; the board, the restart button
  and the menu button only while it is not. A board button or key gives an index
  below the button count of the difficulty, and so does the random draw of \<open>startGame\<close>
  and \<open>resetGame\<close>. (The board buttons are disabled and the key handler returns unless
  \<open>gameState\<close> is \<open>input\<close>; a click is admitted here whenever the board is rendered, and
  \<open>handleButtonClick\<close> itself decides.)
\<close>

datatype action =
    StartGame int
  | SetDifficulty Difficulty
  | SetStrictMode bool
  | ButtonClick int
  | ResetGame int
  | GoToMenu

fun rendered :: "action \<Rightarrow> simon \<Rightarrow> bool" where
  "rendered (StartGame r) s = (gameState s = idle \<and> 0 \<le> r \<and> r < buttons (difficulty s))"
| "rendered (SetDifficulty d) s = (gameState s = idle)"
| "rendered (SetStrictMode b) s = (gameState s = idle)"
| "rendered (ButtonClick i) s = (gameState s \<noteq> idle \<and> 0 \<le> i \<and> i < buttons (difficulty s))"
| "rendered (ResetGame r) s = (gameState s \<noteq> idle \<and> 0 \<le> r \<and> r < buttons (difficulty s))"
| "rendered GoToMenu s = (gameState s \<noteq> idle)"

fun perform :: "action \<Rightarrow> simon \<Rightarrow> simon" where
  "perform (StartGame r) s = startGame r s"
| "perform (SetDifficulty d) s = s\<lparr>difficulty := d\<rparr>"
| "perform (SetStrictMode b) s = s\<lparr>strictMode := b\<rparr>"
| "perform (ButtonClick i) s = handleButtonClick i s"
| "perform (ResetGame r) s = resetGame r s"
| "perform GoToMenu s = goToMenu s"

text \<open>
  \<open>User t a\<close>: the player does \<open>a\<close> at time \<open>t\<close>. \<open>Fire r\<close>: the browser runs the first
  timer of the table (timers run in the order they are due and never before they are
  due; \<open>r\<close> is the index drawn if the callback draws one).
\<close>

datatype event = User nat action | Fire int

definition fire :: "int \<Rightarrow> simon \<Rightarrow> simon option" where
  "fire r s =
     (case timers s of
        [] \<Rightarrow> None
      | t # rest \<Rightarrow>
          (case t of (h, d, cb) \<Rightarrow>
             if drawOk cb r
             then Some (runCallback h cb r (s\<lparr>timers := rest, clock := max (clock s) d\<rparr>))
             else None))"

fun step :: "event \<Rightarrow> simon \<Rightarrow> simon option" where
  "step (User t a) s =
     (if clock s \<le> t \<and> rendered a s
      then Some (commit s (perform a (s\<lparr>clock := t\<rparr>)))
      else None)"
| "step (Fire r) s =
     (case fire r s of None \<Rightarrow> None | Some s' \<Rightarrow> Some (commit s s'))"

fun exec :: "event list \<Rightarrow> simon \<Rightarrow> simon option" where
  "exec [] s = Some s"
| "exec (ev # evs) s = (case step ev s of None \<Rightarrow> None | Some s' \<Rightarrow> exec evs s')"

inductive reachable :: "simon \<Rightarrow> bool" where
  reachable_mount: "reachable (mount stored)"
| reachable_step: "reachable s \<Longrightarrow> step ev s = Some s' \<Longrightarrow> reachable s'"


subsection \<open>Notions used in the statements\<close>

text \<open>
  Play without restart or menu navigation: every event except the restart button and
  the menu button.
\<close>

fun inPlay :: "event \<Rightarrow> bool" where
  "inPlay (User t (ResetGame r)) = False"
| "inPlay (User t GoToMenu) = False"
| "inPlay ev = True"

inductive playReachable :: "simon \<Rightarrow> bool" where
  play_mount: "playReachable (mount stored)"
| play_step: "playReachable s \<Longrightarrow> inPlay ev \<Longrightarrow> step ev s = Some s' \<Longrightarrow> playReachable s'"

text \<open>The handles the state remembers were handed out before (timer handles only grow).\<close>

definition registeredBelow :: "simon \<Rightarrow> bool" where
  "registeredBelow s =
     ((case sequenceInterval s of None \<Rightarrow> True | Some h \<Rightarrow> h < nextHandle s)
      \<and> (case buttonPressTimeout s of None \<Rightarrow> True | Some h \<Rightarrow> h < nextHandle s))"

text \<open>The settle-delay callbacks armed by \<open>handleButtonClick\<close> (1500 ms and 800 ms).\<close>

fun settles :: "callback \<Rightarrow> bool" where
  "settles StrictGameOver = True"
| "settles (ReplaySequence seq siv) = True"
| "settles (NextRound round seq dif siv) = True"
| "settles cb = False"

text \<open>The events that write \<open>playerInput\<close> outside the input state.\<close>

fun clearing :: "event \<Rightarrow> simon \<Rightarrow> bool" where
  "clearing (User t (ResetGame r)) s = True"
| "clearing (User t GoToMenu) s = True"
| "clearing (User t a) s = False"
| "clearing (Fire r) s = (case timers s of [] \<Rightarrow> False | t # rest \<Rightarrow> settles (snd (snd t)))"

text \<open>
  \<open>whileFailure evs s\<close>: the events \<open>evs\<close> can happen from \<open>s\<close> one after the other, each
  of them finds the state in \<open>failure\<close>, and none of them is a settle-delay callback,
  a restart or a menu navigation.
\<close>

fun whileFailure :: "event list \<Rightarrow> simon \<Rightarrow> bool" where
  "whileFailure [] s = True"
| "whileFailure (ev # evs) s =
     (gameState s = failure \<and> \<not> clearing ev s
      \<and> (case step ev s of None \<Rightarrow> False | Some s' \<Rightarrow> whileFailure evs s'))"

text \<open>
  The read \<open>sequence[newInput.length - 1]\<close> that \<open>handleButtonClick buttonIndex\<close> makes in
  the state \<open>s\<close>.
\<close>

definition sequenceRead :: "int \<Rightarrow> simon \<Rightarrow> int option" where
  "sequenceRead buttonIndex s =
     (let newInput = playerInput s @ [buttonIndex]
      in arrayGet (sequence s) (length newInput - 1))"

text \<open>Invariants: the round a \<open>NextRound\<close> closure captured is the length of its sequence.\<close>

fun payloadOk :: "timer \<Rightarrow> bool" where
  "payloadOk (h, d, NextRound round seq dif siv) = (int (length seq) = round)"
| "payloadOk t = True"

definition roundInv :: "simon \<Rightarrow> bool" where
  "roundInv s =
     (int (length (sequence s)) = currentRound s \<and> list_all payloadOk (timers s))"

text \<open>
  The timers that only clear a highlight are \<open>harmless\<close>; \<open>busy\<close> lists the other pending
  callbacks. In play, one playback (\<open>driving\<close>) is pending while showing, one settle
  callback (\<open>settling\<close>) after a round is decided, and nothing otherwise.
\<close>

fun harmless :: "callback \<Rightarrow> bool" where
  "harmless HighlightClear = True"
| "harmless PressClear = True"
| "harmless cb = False"

definition busy :: "timer list \<Rightarrow> callback list" where
  "busy ts = filter (\<lambda>cb. \<not> harmless cb) (map (\<lambda>t. snd (snd t)) ts)"

fun driving :: "callback list \<Rightarrow> bool" where
  "driving [SequenceStep seq index] = True"
| "driving [EnterInput] = True"
| "driving cbs = False"

fun settling :: "GameState \<Rightarrow> callback list \<Rightarrow> bool" where
  "settling success [NextRound round seq dif siv] = True"
| "settling failure [StrictGameOver] = True"
| "settling failure [ReplaySequence seq siv] = True"
| "settling g cbs = False"

text \<open>
  The cleanup of the render of \<open>old\<close> leaves the busy timers of \<open>new\<close> alone: either it
  does not run, or every busy timer of \<open>new\<close> was armed after \<open>old\<close>.
\<close>

definition keepsBusy :: "simon \<Rightarrow> simon \<Rightarrow> bool" where
  "keepsBusy old new =
     (sequenceInterval new = sequenceInterval old
        \<and> buttonPressTimeout new = buttonPressTimeout old
      \<or> list_all (\<lambda>t. harmless (snd (snd t)) \<or> nextHandle old \<le> fst t) (timers new))"

definition playInv :: "simon \<Rightarrow> bool" where
  "playInv s =
     (\<not> isSequenceCancelled s \<and> registeredBelow s \<and>
      (case gameState s of
         idle \<Rightarrow> busy (timers s) = [] \<and> playerInput s = [] \<and> sequence s = []
       | showing \<Rightarrow> driving (busy (timers s)) \<and> playerInput s = [] \<and> sequence s \<noteq> []
       | input \<Rightarrow> busy (timers s) = []
           \<and> length (playerInput s) < length (sequence s)
           \<and> take (length (playerInput s)) (sequence s) = playerInput s
       | success \<Rightarrow> settling success (busy (timers s)) \<and> playerInput s = sequence s
           \<and> sequence s \<noteq> []
       | failure \<Rightarrow> settling failure (busy (timers s))
           \<and> length (playerInput s) \<le> length (sequence s)
           \<and> take (length (playerInput s)) (sequence s) \<noteq> playerInput s))"

subsection \<open>A first game on a fresh browser\<close>

text \<open>
  Concrete states and runs used as inputs below. The game is started at time 0 on
  \<open>easy\<close> and draws button 2: \<open>firstShowing\<close> is the state right after the start,
  \<open>firstInput\<close> the state after the playback (steps at 700 and 1400, highlight cleared
  at 1100, input enabled at 2000), \<open>firstMiss\<close> the state after button 3 is pressed at
  2100.
\<close>

definition firstRun :: "event list" where
  "firstRun = [User 0 (StartGame 2), Fire 0, Fire 0, Fire 0, Fire 0]"

definition firstShowing :: simon where
  "firstShowing =
     \<lparr>gameState = showing, difficulty = easy, sequence = [2], playerInput = [],
      currentRound = 1, bestScore = 1, showingIndex = - 1, strictMode = False,
      sequenceInterval = Some 1, buttonPressTimeout = None,
      isSequenceCancelled = False, localStorage = [easy \<mapsto> 1],
      timers = [(1, 700, SequenceStep [2] 0)], clock = 0, nextHandle = 2\<rparr>"

definition firstInput :: simon where
  "firstInput =
     \<lparr>gameState = input, difficulty = easy, sequence = [2], playerInput = [],
      currentRound = 1, bestScore = 1, showingIndex = - 1, strictMode = False,
      sequenceInterval = None, buttonPressTimeout = None,
      isSequenceCancelled = False, localStorage = [easy \<mapsto> 1], timers = [],
      clock = 2000, nextHandle = 4\<rparr>"

definition firstMiss :: simon where
  "firstMiss =
     \<lparr>gameState = failure, difficulty = easy, sequence = [2], playerInput = [3],
      currentRound = 1, bestScore = 1, showingIndex = 3, strictMode = False,
      sequenceInterval = None, buttonPressTimeout = Some 4,
      isSequenceCancelled = False, localStorage = [easy \<mapsto> 1],
      timers = [(4, 2250, PressClear), (5, 3600, ReplaySequence [2] None)],
      clock = 2100, nextHandle = 6\<rparr>"

definition firstHit :: simon where
  "firstHit =
     \<lparr>gameState = success, difficulty = easy, sequence = [2], playerInput = [2],
      currentRound = 1, bestScore = 1, showingIndex = 2, strictMode = False,
      sequenceInterval = None, buttonPressTimeout = Some 4,
      isSequenceCancelled = False, localStorage = [easy \<mapsto> 1],
      timers = [(4, 2250, PressClear), (5, 2900, NextRound 1 [2] easy None)],
      clock = 2100, nextHandle = 6\<rparr>"

text \<open>
  \<open>firstHit\<close> is the state after button 2 is pressed at 2100 instead. The runs below
  continue the first game; the player's actions carry their times, and every timer
  fires when it is due.

  \<^item> \<open>restartRun\<close>: the restart button is pressed at 1500, after the last playback step
    (1400) and before the playback's final timeout (2000).
  \<^item> \<open>menuRun\<close>: the wrong button 3 is pressed at 2100, the menu button at 2200, and
    the timers are left to run until 5600.
  \<^item> \<open>mediumRun\<close>: button 2 is pressed at 2100, the second round (drawing 1) starts at
    2900, the menu button is pressed at 3000, \<open>medium\<close> is chosen at 3100 and a game is
    started at 3200 (drawing 5), played back, answered with button 5 at 5300 and
    continued into its second round at 6100 (drawing 3).
  \<^item> \<open>earlyInputRun\<close>: \<open>restartRun\<close> (the restart draws 1) left to run until 2950: the
    first playback's timeout enables input at 2000, the second playback shows button 1
    at 2250, clears the highlight at 2650 and, at 2950, arms its own final timeout, due
    at 3550.
  \<^item> \<open>reenabledRun\<close>: then button 1 is pressed at 3000, which completes the round (its
    settle callback is due at 3800); the press highlight is cleared at 3150 and the
    second playback's timeout enables input again at 3550.
  \<^item> \<open>lateMissRun\<close>: then button 0 is pressed at 3600 and the timers are left to run:
    press highlight cleared at 3750, the round's settle callback at 3800 (drawing 2),
    a playback step at 4500, its highlight cleared at 4900, and the settle callback of
    the press of 3600 at 5100.
  \<^item> \<open>overtakenRun\<close>: after \<open>earlyInputRun\<close> the wrong button 0 is pressed at 3000 (its
    settle callback is due at 4500), the restart button at 3100 (drawing 3; its 50 ms
    callback runs at 3150), the second playback's timeout enables input at 3550,
    button 3 is pressed at 3600 and completes the round, the press highlight is
    cleared at 3750 and the round's settle callback runs at 4400 (drawing 0).
\<close>

definition lastStepDone :: "event list" where
  "lastStepDone = [User 0 (StartGame 2), Fire 0, Fire 0, Fire 0]"

definition restartRun :: "event list" where
  "restartRun = lastStepDone @ [User 1500 (ResetGame 1), Fire 0]"

definition menuRun :: "event list" where
  "menuRun = firstRun @ [User 2100 (ButtonClick 3), User 2200 GoToMenu,
                         Fire 0, Fire 0, Fire 0, Fire 0, Fire 0]"

definition mediumStart :: "event list" where
  "mediumStart = firstRun @ [User 2100 (ButtonClick 2), Fire 0, Fire 1, User 3000 GoToMenu,
                             User 3100 (SetDifficulty medium), User 3200 (StartGame 5)]"

definition mediumRun :: "event list" where
  "mediumRun = mediumStart @ [Fire 0, Fire 0, Fire 0, Fire 0, User 5300 (ButtonClick 5),
                             Fire 0, Fire 3]"

definition earlyInputRun :: "event list" where
  "earlyInputRun = restartRun @ [Fire 0, Fire 0, Fire 0, Fire 0]"

definition reenabledRun :: "event list" where
  "reenabledRun = earlyInputRun @ [User 3000 (ButtonClick 1), Fire 0, Fire 0]"

definition lateMissRun :: "event list" where
  "lateMissRun = reenabledRun @ [User 3600 (ButtonClick 0), Fire 0, Fire 2, Fire 0, Fire 0,
                                Fire 0]"

definition overtakenRun :: "event list" where
  "overtakenRun = earlyInputRun @ [User 3000 (ButtonClick 0), User 3100 (ResetGame 3),
                                  Fire 0, Fire 0, User 3600 (ButtonClick 3), Fire 0, Fire 0]"

text \<open>\<open>localStorage.getItem\<close> of the key of difficulty \<open>d\<close>.\<close>

definition storedBest :: "Difficulty \<Rightarrow> simon \<Rightarrow> int option" where
  "storedBest d s = localStorage s d"

section \<open>Auxiliary facts\<close>

lemma arrayGet_snoc_last: "arrayGet (xs @ [x]) (length xs) = Some x"
  by (simp add: arrayGet_def)

lemma arrayGet_Some_iff: "(arrayGet xs i = Some x) = (i < length xs \<and> xs ! i = x)"
  by (simp add: arrayGet_def)

lemmas timer_defs = setTimer_def clearTimer_def

lemmas effect_defs = commit_def saveBestEffect_def loadBestEffect_def cleanupEffect_def
  clearTimer_def

lemmas run_defs = effect_defs startGame_def showSequence_def timer_defs removeTimer_def
  fire_def resetGame_def goToMenu_def handleButtonClick_def arrayGet_def Let_def

text \<open>The three outcomes of a submission in the input state.\<close>

lemma click_mismatch:
  assumes "gameState s = input"
    and "arrayGet (sequence s) (length (playerInput s)) \<noteq> Some b"
  shows "handleButtonClick b s =
     setTimer 1500 (if strictMode s then StrictGameOver
                    else ReplaySequence (sequence s) (sequenceInterval s))
       ((setTimer 150 PressClear (clearTimer (buttonPressTimeout s) s))
          \<lparr>gameState := failure, playerInput := playerInput s @ [b], showingIndex := b,
            buttonPressTimeout := Some (nextHandle s)\<rparr>)"
proof -
  from assms(2) have "Some b \<noteq> arrayGet (sequence s) (length (playerInput s))"
    by auto
  with assms(1) show ?thesis
    by (simp add: handleButtonClick_def Let_def arrayGet_snoc_last timer_defs)
qed

lemma click_complete:
  assumes "gameState s = input"
    and "arrayGet (sequence s) (length (playerInput s)) = Some b"
    and "length (sequence s) = Suc (length (playerInput s))"
  shows "handleButtonClick b s =
     setTimer 800 (NextRound (currentRound s) (sequence s) (difficulty s) (sequenceInterval s))
       ((setTimer 150 PressClear (clearTimer (buttonPressTimeout s) s))
          \<lparr>gameState := success, playerInput := playerInput s @ [b], showingIndex := b,
            buttonPressTimeout := Some (nextHandle s)\<rparr>)"
  using assms
  by (simp add: handleButtonClick_def Let_def arrayGet_snoc_last timer_defs)

lemma click_partial:
  assumes "gameState s = input"
    and "arrayGet (sequence s) (length (playerInput s)) = Some b"
    and "length (sequence s) \<noteq> Suc (length (playerInput s))"
  shows "handleButtonClick b s =
       (setTimer 150 PressClear (clearTimer (buttonPressTimeout s) s))
          \<lparr>playerInput := playerInput s @ [b], showingIndex := b,
            buttonPressTimeout := Some (nextHandle s)\<rparr>"
  using assms
  by (simp add: handleButtonClick_def Let_def arrayGet_snoc_last timer_defs)

text \<open>What the effects and \<open>showSequence\<close> leave alone.\<close>

lemma commit_frame:
  "gameState (commit old new) = gameState new"
  "sequence (commit old new) = sequence new"
  "playerInput (commit old new) = playerInput new"
  "currentRound (commit old new) = currentRound new"
  "clock (commit old new) = clock new"
  "difficulty (commit old new) = difficulty new"
  "strictMode (commit old new) = strictMode new"
  "isSequenceCancelled (commit old new) = isSequenceCancelled new"
  "sequenceInterval (commit old new) = sequenceInterval new"
  "buttonPressTimeout (commit old new) = buttonPressTimeout new"
  "showingIndex (commit old new) = showingIndex new"
  "nextHandle (commit old new) = nextHandle new"
  by (simp_all add: effect_defs Let_def split: option.splits)

lemma timers_commit:
  "timers (commit old new) =
     (if sequenceInterval new \<noteq> sequenceInterval old
         \<or> buttonPressTimeout new \<noteq> buttonPressTimeout old
      then removeTimer (buttonPressTimeout old) (removeTimer (sequenceInterval old) (timers new))
      else timers new)"
  by (auto simp add: effect_defs Let_def split: option.splits)

lemma showSequence_frame:
  "gameState (showSequence siv seq s) = gameState s"
  "sequence (showSequence siv seq s) = sequence s"
  "playerInput (showSequence siv seq s) = playerInput s"
  "currentRound (showSequence siv seq s) = currentRound s"
  by (simp_all add: showSequence_def timer_defs Let_def)

lemma list_all_enqueue: "list_all P (enqueue t ts) = (P t \<and> list_all P ts)"
  by (induction ts) auto

lemma list_all_removeTimer: "list_all P ts \<Longrightarrow> list_all P (removeTimer ho ts)"
  by (cases ho) (simp_all add: removeTimer_def list_all_iff)

text \<open>Runs and reachability.\<close>

lemma exec_append:
  "exec (xs @ ys) s = (case exec xs s of None \<Rightarrow> None | Some s' \<Rightarrow> exec ys s')"
  by (induction xs arbitrary: s) (auto split: option.splits)

lemma exec_reachable: "reachable s \<Longrightarrow> exec evs s = Some s' \<Longrightarrow> reachable s'"
  by (induction evs arbitrary: s) (auto intro: reachable_step split: option.splits)

lemma exec_playReachable:
  "playReachable s \<Longrightarrow> list_all inPlay evs \<Longrightarrow> exec evs s = Some s' \<Longrightarrow> playReachable s'"
  by (induction evs arbitrary: s) (auto intro: play_step split: option.splits)

lemma mount_fresh:
  "mount Map.empty =
     \<lparr>gameState = idle, difficulty = easy, sequence = [], playerInput = [],
      currentRound = 0, bestScore = 0, showingIndex = - 1, strictMode = False,
      sequenceInterval = None, buttonPressTimeout = None,
      isSequenceCancelled = False, localStorage = Map.empty, timers = [],
      clock = 0, nextHandle = 1\<rparr>"
  by (simp add: mount_def loadBestEffect_def saveBestEffect_def)

lemma first_start: "step (User 0 (StartGame 2)) (mount Map.empty) = Some firstShowing"
  by (simp add: mount_fresh firstShowing_def run_defs)

lemma first_playback: "exec firstRun (mount Map.empty) = Some firstInput"
  by (simp add: firstRun_def mount_fresh firstInput_def run_defs)

lemma first_miss: "step (User 2100 (ButtonClick 3)) firstInput = Some firstMiss"
  by (simp add: firstInput_def firstMiss_def run_defs)

lemma first_hit: "step (User 2100 (ButtonClick 2)) firstInput = Some firstHit"
  by (simp add: firstInput_def firstHit_def run_defs)

lemma reachable_firstInput: "reachable firstInput"
  using exec_reachable [OF reachable_mount first_playback] .

lemma playReachable_firstInput: "playReachable firstInput"
  using exec_playReachable [OF play_mount _ first_playback]
  by (simp add: firstRun_def)

lemma playReachable_firstMiss: "playReachable firstMiss"
  using playReachable_firstInput _ first_miss by (rule play_step) simp

lemma playReachable_firstHit: "playReachable firstHit"
  using playReachable_firstInput _ first_hit by (rule play_step) simp

section \<open>Properties\<close>

subsection \<open>Input outside the input state\<close>

text \<open>
  C9. In a state whose \<open>gameState\<close> is not \<open>input\<close>, a submitted button index is ignored:
  \<open>handleButtonClick\<close> returns the state it was given, so \<open>gameState\<close>, \<open>sequence\<close>,
  \<open>playerInput\<close>, \<open>currentRound\<close>, \<open>bestScore\<close>, the highlight and the timers are unchanged.
\<close>

theorem click_ignored_outside_input:
  "gameState s \<noteq> input \<Longrightarrow> handleButtonClick b s = s"
  by (simp add: handleButtonClick_def)

theorem click_ignored_outside_input_witness:
  "gameState firstShowing \<noteq> input \<and> handleButtonClick 2 firstShowing = firstShowing"
proof -
  have h: "gameState firstShowing \<noteq> input"
    by (simp add: firstShowing_def)
  from h click_ignored_outside_input [OF h, of 2] show ?thesis
    by simp
qed

subsection \<open>Input verification\<close>

text \<open>
  C1. For a button index \<open>b\<close> submitted while \<open>gameState\<close> is \<open>input\<close>, the engine appends
  \<open>b\<close> to \<open>playerInput\<close> and compares it with \<open>sequence\<close> at position
  \<open>length playerInput - 1\<close> (of the extended input). If they differ (also when the
  sequence has no such position) the state becomes \<open>failure\<close>, whatever \<open>strictMode\<close> is.
  If they are equal and the input is as long as the sequence the state becomes
  \<open>success\<close>. If they are equal and the input is shorter, the state stays \<open>input\<close> and
  the only timer armed is the one that clears the press highlight.
\<close>

theorem input_verification:
  assumes "gameState s = input"
  shows "playerInput (handleButtonClick b s) = playerInput s @ [b]
    \<and> sequence (handleButtonClick b s) = sequence s
    \<and> (if arrayGet (sequence s) (length (playerInput (handleButtonClick b s)) - 1) \<noteq> Some b
       then gameState (handleButtonClick b s) = failure
       else if length (playerInput (handleButtonClick b s)) = length (sequence s)
       then gameState (handleButtonClick b s) = success
       else gameState (handleButtonClick b s) = input
          \<and> length (playerInput (handleButtonClick b s)) < length (sequence s)
          \<and> timers (handleButtonClick b s) =
              enqueue (nextHandle s, clock s + 150, PressClear)
                (timers (clearTimer (buttonPressTimeout s) s)))"
proof (cases "arrayGet (sequence s) (length (playerInput s)) = Some b")
  case False
  then show ?thesis
    by (simp add: click_mismatch [OF assms] timer_defs)
next
  case match: True
  then have lt: "length (playerInput s) < length (sequence s)"
    by (simp add: arrayGet_Some_iff)
  show ?thesis
  proof (cases "length (sequence s) = Suc (length (playerInput s))")
    case True
    then show ?thesis
      by (simp add: click_complete [OF assms match] match timer_defs)
  next
    case False
    with lt assms show ?thesis
      by (simp add: click_partial [OF assms match] match timer_defs)
  qed
qed

theorem input_verification_witness:
  "gameState firstInput = input
   \<and> playerInput (handleButtonClick 2 firstInput) = [2]
   \<and> gameState (handleButtonClick 2 firstInput) = success
   \<and> playerInput (handleButtonClick 3 firstInput) = [3]
   \<and> gameState (handleButtonClick 3 firstInput) = failure"
proof -
  have h: "gameState firstInput = input"
    by (simp add: firstInput_def)
  have s: "sequence firstInput = [2]" and p: "playerInput firstInput = []"
    by (simp_all add: firstInput_def)
  from input_verification [OF h, of 2] input_verification [OF h, of 3] h show ?thesis
    by (simp add: s p arrayGet_def split: if_splits)
qed

subsection \<open>The mismatching index stays in the input\<close>

lemma frame_while_failure:
  assumes "gameState s = failure" and "\<not> clearing ev s" and "step ev s = Some s'"
  shows "playerInput s' = playerInput s \<and> sequence s' = sequence s"
proof (cases ev)
  case (User t a)
  with assms show ?thesis
    by (cases a) (auto simp add: commit_frame handleButtonClick_def split: if_splits)
next
  case (Fire r)
  with assms obtain h d cb rest where ts: "timers s = (h, d, cb) # rest"
    by (auto simp add: fire_def split: list.splits option.splits)
  with assms Fire show ?thesis
    by (cases cb)
      (auto simp add: fire_def commit_frame showSequence_frame timer_defs Let_def
        split: if_splits)
qed

lemma retained_while_failure:
  "whileFailure evs s \<Longrightarrow>
     \<exists>s'. exec evs s = Some s' \<and> playerInput s' = playerInput s \<and> sequence s' = sequence s"
proof (induction evs arbitrary: s)
  case Nil
  then show ?case by simp
next
  case (Cons ev evs)
  then obtain s1 where s1: "step ev s = Some s1" and w: "whileFailure evs s1"
    and f: "gameState s = failure" and nc: "\<not> clearing ev s"
    by (auto split: option.splits)
  from frame_while_failure [OF f nc s1] Cons.IH [OF w] s1 show ?case
    by auto
qed

text \<open>
  C10. A mismatched submission appends the mismatching index to \<open>playerInput\<close> and moves
  to \<open>failure\<close>. While the engine stays in \<open>failure\<close>, every event other than a
  settle-delay callback, a restart or a menu navigation leaves \<open>playerInput\<close> (and
  \<open>sequence\<close>) as they are. So after a mismatch at the last position the input is as
  long as the sequence while the state is \<open>failure\<close>.
\<close>

theorem mismatch_retained:
  assumes inp: "gameState s = input"
    and mis: "arrayGet (sequence s) (length (playerInput s)) \<noteq> Some b"
    and run: "whileFailure evs (handleButtonClick b s)"
  shows "gameState (handleButtonClick b s) = failure
    \<and> playerInput (handleButtonClick b s) = playerInput s @ [b]
    \<and> (\<exists>s'. exec evs (handleButtonClick b s) = Some s'
          \<and> playerInput s' = playerInput s @ [b]
          \<and> sequence s' = sequence s
          \<and> (length (sequence s) = Suc (length (playerInput s))
               \<longrightarrow> length (playerInput s') = length (sequence s')))"
proof -
  have f: "gameState (handleButtonClick b s) = failure"
    and p: "playerInput (handleButtonClick b s) = playerInput s @ [b]"
    and q: "sequence (handleButtonClick b s) = sequence s"
    using inp mis by (simp_all add: click_mismatch timer_defs)
  from retained_while_failure [OF run] p q f show ?thesis
    by auto
qed

theorem mismatch_retained_witness:
  "gameState firstInput = input
   \<and> arrayGet (sequence firstInput) (length (playerInput firstInput)) \<noteq> Some 3
   \<and> whileFailure [Fire 0] (handleButtonClick 3 firstInput)
   \<and> gameState (handleButtonClick 3 firstInput) = failure
   \<and> playerInput (handleButtonClick 3 firstInput) = [3]
   \<and> (\<exists>s'. exec [Fire 0] (handleButtonClick 3 firstInput) = Some s'
         \<and> playerInput s' = [3] \<and> sequence s' = [2]
         \<and> length (playerInput s') = length (sequence s'))"
proof -
  have h: "gameState firstInput = input"
    "arrayGet (sequence firstInput) (length (playerInput firstInput)) \<noteq> Some 3"
    "whileFailure [Fire 0] (handleButtonClick 3 firstInput)"
    by (simp_all add: firstInput_def run_defs)
  have v: "playerInput firstInput = []" "sequence firstInput = [2]"
    by (simp_all add: firstInput_def)
  from mismatch_retained [OF h] h show ?thesis
    by (simp add: v)
qed

subsection \<open>The sequence is as long as the round\<close>

lemma roundInv_mount: "roundInv (mount stored)"
  by (simp add: roundInv_def mount_def loadBestEffect_def saveBestEffect_def Let_def
      split: option.splits)

lemma roundInv_commit: "roundInv new \<Longrightarrow> roundInv (commit old new)"
  by (simp add: roundInv_def commit_frame timers_commit list_all_removeTimer)

lemma payloadOk_showSequence:
  "list_all payloadOk (timers s) \<Longrightarrow> list_all payloadOk (timers (showSequence siv seq s))"
  by (simp add: showSequence_def timer_defs Let_def list_all_enqueue list_all_removeTimer)

lemma roundInv_perform:
  assumes "roundInv s"
  shows "roundInv (perform a s)"
proof (cases a)
  case (StartGame r)
  with assms show ?thesis
    by (simp add: roundInv_def startGame_def Let_def showSequence_frame payloadOk_showSequence)
next
  case (ButtonClick b)
  with assms show ?thesis
    by (simp add: roundInv_def handleButtonClick_def Let_def timer_defs list_all_enqueue
        list_all_removeTimer)
next
  case (ResetGame r)
  with assms show ?thesis
    by (simp add: roundInv_def resetGame_def Let_def timer_defs list_all_enqueue
        list_all_removeTimer split: option.splits)
next
  case GoToMenu
  with assms show ?thesis
    by (simp add: roundInv_def goToMenu_def Let_def timer_defs list_all_removeTimer
        split: option.splits)
qed (use assms in \<open>simp_all add: roundInv_def\<close>)

lemma roundInv_runCallback:
  assumes "int (length (sequence s)) = currentRound s" and "list_all payloadOk (timers s)"
    and "payloadOk (h, d, cb)"
  shows "roundInv (runCallback h cb r s)"
  using assms
  by (cases cb)
    (simp_all add: roundInv_def Let_def timer_defs list_all_enqueue showSequence_frame
      payloadOk_showSequence)

lemma roundInv_step:
  assumes "roundInv s" and "step ev s = Some s'"
  shows "roundInv s'"
proof (cases ev)
  case (User t a)
  have "roundInv (s\<lparr>clock := t\<rparr>)"
    using assms(1) by (simp add: roundInv_def)
  then have "roundInv (perform a (s\<lparr>clock := t\<rparr>))"
    by (rule roundInv_perform)
  with assms(2) User show ?thesis
    by (auto intro: roundInv_commit split: if_splits)
next
  case (Fire r)
  with assms(2) obtain h d cb rest where ts: "timers s = (h, d, cb) # rest"
    and s': "s' = commit s (runCallback h cb r (s\<lparr>timers := rest, clock := max (clock s) d\<rparr>))"
    by (auto simp add: fire_def split: list.splits option.splits if_splits)
  from assms(1) ts
  have "roundInv (runCallback h cb r (s\<lparr>timers := rest, clock := max (clock s) d\<rparr>))"
    by (intro roundInv_runCallback [where d = d]) (simp_all add: roundInv_def)
  with s' show ?thesis
    by (simp add: roundInv_commit)
qed

lemma reachable_roundInv: "reachable s \<Longrightarrow> roundInv s"
  by (induction rule: reachable.induct) (auto intro: roundInv_mount roundInv_step)

text \<open>
  C2. In every reachable state whose \<open>gameState\<close> is \<open>showing\<close>, \<open>input\<close>, \<open>success\<close> or
  \<open>failure\<close>, whatever the difficulty, the sequence is as long as the round; and the
  state right after a start has a sequence of length 1 and round 1.
\<close>

theorem sequence_length_is_round:
  assumes "reachable s" and "gameState s \<in> {showing, input, success, failure}"
    and "step (User t (StartGame r)) s0 = Some s1"
  shows "int (length (sequence s)) = currentRound s
    \<and> length (sequence s1) = 1 \<and> currentRound s1 = 1"
proof -
  from assms(1) have "int (length (sequence s)) = currentRound s"
    using reachable_roundInv by (simp add: roundInv_def)
  moreover from assms(3) have "length (sequence s1) = 1 \<and> currentRound s1 = 1"
    by (auto simp add: commit_frame startGame_def showSequence_frame Let_def split: if_splits)
  ultimately show ?thesis by simp
qed

theorem sequence_length_is_round_witness:
  "reachable firstInput \<and> gameState firstInput \<in> {showing, input, success, failure}
   \<and> step (User 0 (StartGame 2)) (mount Map.empty) = Some firstShowing
   \<and> int (length (sequence firstInput)) = currentRound firstInput
   \<and> length (sequence firstShowing) = 1 \<and> currentRound firstShowing = 1"
proof -
  have h: "gameState firstInput \<in> {showing, input, success, failure}"
    by (simp add: firstInput_def)
  from sequence_length_is_round [OF reachable_firstInput h first_start]
    reachable_firstInput h first_start
  show ?thesis by simp
qed

subsection \<open>The input is never longer than the sequence\<close>

lemma busy_Cons: "busy ((h, d, cb) # ts) = (if harmless cb then busy ts else cb # busy ts)"
  by (simp add: busy_def)

lemma busy_Nil: "busy [] = []"
  by (simp add: busy_def)

lemma busy_empty_conv: "(busy ts = []) = list_all (\<lambda>t. harmless (snd (snd t))) ts"
  by (induction ts) (auto simp add: busy_def)

lemma busy_enqueue_idle:
  "busy ts = [] \<Longrightarrow> busy (enqueue (h, d, cb) ts) = (if harmless cb then [] else [cb])"
  by (induction ts) (auto simp add: busy_def)

lemma busy_removeTimer_idle: "busy ts = [] \<Longrightarrow> busy (removeTimer ho ts) = []"
  by (cases ho) (auto simp add: removeTimer_def busy_def filter_empty_conv)

text \<open>
  A cleanup clears handles that were handed out before the step, so it removes no
  busy timer that was armed in the step.
\<close>

lemma busy_removeTimer_fresh:
  assumes "case ho of None \<Rightarrow> True | Some h \<Rightarrow> h < n"
    and "list_all (\<lambda>t. harmless (snd (snd t)) \<or> n \<le> fst t) ts"
  shows "busy (removeTimer ho ts) = busy ts"
proof (cases ho)
  case None
  then show ?thesis by (simp add: removeTimer_def)
next
  case (Some h)
  with assms have "h < n" by simp
  with assms(2) have "busy (filter (\<lambda>t. fst t \<noteq> h) ts) = busy ts"
    by (induction ts) (auto simp add: busy_def)
  with Some show ?thesis by (simp add: removeTimer_def)
qed

lemma harmless_keepsBusy:
  "busy ts = [] \<Longrightarrow> list_all (\<lambda>t. harmless (snd (snd t)) \<or> n \<le> fst t) ts"
  by (simp add: busy_empty_conv list_all_iff)

lemma busy_commit:
  assumes "registeredBelow old" and "keepsBusy old new"
  shows "busy (timers (commit old new)) = busy (timers new)"
proof (cases "sequenceInterval new = sequenceInterval old
                \<and> buttonPressTimeout new = buttonPressTimeout old")
  case True
  then show ?thesis by (simp add: timers_commit)
next
  case False
  with assms(2)
  have fresh: "list_all (\<lambda>t. harmless (snd (snd t)) \<or> nextHandle old \<le> fst t) (timers new)"
    by (auto simp add: keepsBusy_def)
  then have fresh':
    "list_all (\<lambda>t. harmless (snd (snd t)) \<or> nextHandle old \<le> fst t)
       (removeTimer (sequenceInterval old) (timers new))"
    by (rule list_all_removeTimer)
  from assms(1) have a: "case sequenceInterval old of None \<Rightarrow> True | Some h \<Rightarrow> h < nextHandle old"
    and b: "case buttonPressTimeout old of None \<Rightarrow> True | Some h \<Rightarrow> h < nextHandle old"
    by (simp_all add: registeredBelow_def)
  from False show ?thesis
    by (simp add: timers_commit busy_removeTimer_fresh [OF b fresh']
        busy_removeTimer_fresh [OF a fresh])
qed

lemma registeredBelow_commit: "registeredBelow (commit old new) = registeredBelow new"
  by (simp add: registeredBelow_def commit_frame cong: option.case_cong)

lemma playInv_commit:
  assumes "playInv new" and "registeredBelow old" and "keepsBusy old new"
  shows "playInv (commit old new)"
  using assms(1)
  by (simp add: playInv_def registeredBelow_commit commit_frame busy_commit [OF assms(2,3)]
      cong: GameState.case_cong)

lemma playInv_mount: "playInv (mount stored)"
  by (simp add: playInv_def registeredBelow_def mount_def loadBestEffect_def
      saveBestEffect_def Let_def busy_Nil split: option.splits)

lemma showSequence_starts:
  assumes "busy (timers s) = []" and "gameState s = showing" and "playerInput s = []"
    and "sequence s \<noteq> []" and "registeredBelow s"
  shows "playInv (showSequence siv seq s)"
    and "list_all (\<lambda>t. harmless (snd (snd t)) \<or> nextHandle s \<le> fst t)
           (timers (showSequence siv seq s))"
proof -
  show "playInv (showSequence siv seq s)"
    using assms
    by (simp add: playInv_def registeredBelow_def showSequence_def timer_defs Let_def
        busy_enqueue_idle busy_removeTimer_idle split: option.splits)
  from assms(1) have "list_all (\<lambda>t. harmless (snd (snd t)) \<or> nextHandle s \<le> fst t)
      (removeTimer siv (timers s))"
    by (intro list_all_removeTimer harmless_keepsBusy)
  then show "list_all (\<lambda>t. harmless (snd (snd t)) \<or> nextHandle s \<le> fst t)
           (timers (showSequence siv seq s))"
    by (simp add: showSequence_def timer_defs Let_def list_all_enqueue)
qed

lemma playInv_click:
  assumes inv: "playInv s"
  shows "playInv (handleButtonClick b s) \<and> keepsBusy s (handleButtonClick b s)"
proof (cases "gameState s = input")
  case False
  with inv show ?thesis by (simp add: handleButtonClick_def keepsBusy_def)
next
  case inp: True
  with inv have nc: "\<not> isSequenceCancelled s" and idle: "busy (timers s) = []"
    and lt: "length (playerInput s) < length (sequence s)"
    and pre: "take (length (playerInput s)) (sequence s) = playerInput s"
    and below: "registeredBelow s"
    by (simp_all add: playInv_def)
  have cleared: "list_all (\<lambda>t. harmless (snd (snd t)) \<or> nextHandle s \<le> fst t)
      (removeTimer (buttonPressTimeout s) (timers s))"
    using idle by (intro list_all_removeTimer harmless_keepsBusy)
  have snoc: "take (Suc (length (playerInput s))) (sequence s)
                = playerInput s @ [sequence s ! length (playerInput s)]"
    using lt pre by (simp add: take_Suc_conv_app_nth)
  show ?thesis
  proof (cases "arrayGet (sequence s) (length (playerInput s)) = Some b")
    case False
    with lt have "sequence s ! length (playerInput s) \<noteq> b"
      by (simp add: arrayGet_def)
    with snoc lt nc idle cleared below show ?thesis
      by (simp add: click_mismatch [OF inp False] playInv_def keepsBusy_def registeredBelow_def
          timer_defs busy_enqueue_idle busy_removeTimer_idle list_all_enqueue
          split: option.splits)
  next
    case match: True
    then have eq: "sequence s ! length (playerInput s) = b"
      by (simp add: arrayGet_Some_iff)
    show ?thesis
    proof (cases "length (sequence s) = Suc (length (playerInput s))")
      case True
      with snoc eq have "playerInput s @ [b] = sequence s" by simp
      with nc idle lt cleared below show ?thesis
        by (auto simp add: click_complete [OF inp match True] playInv_def keepsBusy_def
            registeredBelow_def timer_defs busy_enqueue_idle busy_removeTimer_idle
            list_all_enqueue split: option.splits)
    next
      case False
      with lt have "Suc (length (playerInput s)) < length (sequence s)" by simp
      with snoc eq nc idle inp cleared below show ?thesis
        by (simp add: click_partial [OF inp match False] playInv_def keepsBusy_def
            registeredBelow_def timer_defs busy_enqueue_idle busy_removeTimer_idle
            list_all_enqueue split: option.splits)
    qed
  qed
qed

lemma playInv_perform:
  assumes "playInv s" and "rendered a s" and "inPlay (User t a)"
  shows "playInv (perform a s) \<and> keepsBusy s (perform a s)"
proof (cases a)
  case (StartGame r)
  with assms have "gameState s = idle" and "busy (timers s) = []" and "registeredBelow s"
    by (simp_all add: playInv_def)
  then show ?thesis
    unfolding StartGame
    using showSequence_starts [of "s\<lparr>gameState := showing, currentRound := 1,
        playerInput := [], sequence := [r]\<rparr>" "sequenceInterval s" "[r]"]
    by (simp add: startGame_def Let_def keepsBusy_def registeredBelow_def
        split: option.splits)
next
  case (ButtonClick b)
  with assms(1) show ?thesis by (simp add: playInv_click)
next
  case (SetDifficulty d)
  with assms show ?thesis
    by (simp add: playInv_def keepsBusy_def registeredBelow_def split: option.splits)
next
  case (SetStrictMode d)
  with assms show ?thesis
    by (simp add: playInv_def keepsBusy_def registeredBelow_def split: option.splits)
qed (use assms in simp_all)

text \<open>
  A callback that is not harmless is the one busy timer of the state, which tells the
  state it runs in.
\<close>

lemma playInv_fire:
  assumes inv: "playInv s" and ts: "timers s = (h, d, cb) # rest"
  shows "playInv (runCallback h cb r (s\<lparr>timers := rest, clock := c\<rparr>))
     \<and> keepsBusy s (runCallback h cb r (s\<lparr>timers := rest, clock := c\<rparr>))"
proof (cases "harmless cb")
  case True
  with ts have "busy rest = busy (timers s)" by (simp add: busy_Cons)
  with inv True show ?thesis
    by (cases cb)
      (simp_all add: playInv_def keepsBusy_def registeredBelow_def
        split: GameState.splits option.splits)
next
  case False
  with ts have b: "busy (timers s) = cb # busy rest" by (simp add: busy_Cons)
  from inv have nc: "\<not> isSequenceCancelled s" and below: "registeredBelow s"
    by (simp_all add: playInv_def)
  show ?thesis
  proof (cases cb)
    case (SequenceStep seq index)
    with inv b have g: "gameState s = showing" and r: "busy rest = []"
      and p: "playerInput s = []" and q: "sequence s \<noteq> []"
      by (auto simp add: playInv_def split: GameState.splits
          elim: driving.elims settling.elims)
    from r have "list_all (\<lambda>t. harmless (snd (snd t)) \<or> nextHandle s \<le> fst t) rest"
      by (rule harmless_keepsBusy)
    with nc g r p q below show ?thesis
      unfolding SequenceStep
      by (simp add: playInv_def keepsBusy_def registeredBelow_def timer_defs Let_def
          busy_enqueue_idle list_all_enqueue split: option.splits)
  next
    case EnterInput
    with inv b have g: "gameState s = showing" and r: "busy rest = []"
      and p: "playerInput s = []" and q: "sequence s \<noteq> []"
      by (auto simp add: playInv_def split: GameState.splits
          elim: driving.elims settling.elims)
    with nc below show ?thesis
      unfolding EnterInput
      by (simp add: playInv_def keepsBusy_def registeredBelow_def split: option.splits)
  next
    case StrictGameOver
    with inv b have r: "busy rest = []"
      by (auto simp add: playInv_def split: GameState.splits
          elim: driving.elims settling.elims)
    with nc below show ?thesis
      unfolding StrictGameOver
      by (simp add: playInv_def keepsBusy_def registeredBelow_def split: option.splits)
  next
    case (ReplaySequence seq siv)
    with inv b have g: "gameState s = failure" and r: "busy rest = []"
      and q: "sequence s \<noteq> []"
      by (auto simp add: playInv_def split: GameState.splits
          elim: driving.elims settling.elims)
    with below show ?thesis
      unfolding ReplaySequence
      using showSequence_starts [of "s\<lparr>timers := rest, clock := c, playerInput := [],
          gameState := showing\<rparr>" siv seq]
      by (simp add: keepsBusy_def registeredBelow_def split: option.splits)
  next
    case (NextRound round seq dif siv)
    with inv b have r: "busy rest = []"
      by (auto simp add: playInv_def split: GameState.splits
          elim: driving.elims settling.elims)
    with below show ?thesis
      unfolding NextRound
      using showSequence_starts [of "s\<lparr>timers := rest, clock := c,
          currentRound := round + 1, sequence := seq @ [r], playerInput := [],
          gameState := showing\<rparr>" siv "seq @ [r]"]
      by (simp add: keepsBusy_def registeredBelow_def Let_def split: option.splits)
  next
    case (RestartShow seq siv)
    with inv b show ?thesis
      by (auto simp add: playInv_def split: GameState.splits
          elim: driving.elims settling.elims)
  qed (use False in simp_all)
qed

lemma playInv_step:
  assumes "playInv s" and "inPlay ev" and "step ev s = Some s'"
  shows "playInv s'"
proof -
  from assms(1) have below: "registeredBelow s"
    by (simp add: playInv_def)
  show ?thesis
  proof (cases ev)
    case (User t a)
    let ?u = "s\<lparr>clock := t\<rparr>"
    have "playInv ?u"
      using assms(1)
      by (simp add: playInv_def registeredBelow_def
          cong: GameState.case_cong option.case_cong)
    moreover from assms(3) User have "rendered a ?u"
      by (cases a) (auto split: if_splits)
    ultimately have "playInv (perform a ?u) \<and> keepsBusy ?u (perform a ?u)"
      using assms(2) User by (intro playInv_perform) auto
    then have "playInv (perform a ?u)" and "keepsBusy s (perform a ?u)"
      by (simp_all add: keepsBusy_def)
    then have "playInv (commit s (perform a ?u))"
      using below by (intro playInv_commit)
    with assms(3) User show ?thesis
      by (auto split: if_splits)
  next
    case (Fire r)
    with assms(3) obtain h d cb rest where ts: "timers s = (h, d, cb) # rest"
      and s': "s' = commit s (runCallback h cb r (s\<lparr>timers := rest, clock := max (clock s) d\<rparr>))"
      by (auto simp add: fire_def split: list.splits option.splits if_splits)
    from playInv_fire [OF assms(1) ts] below s' show ?thesis
      by (simp add: playInv_commit)
  qed
qed

lemma playReachable_playInv: "playReachable s \<Longrightarrow> playInv s"
  by (induction rule: playReachable.induct) (auto intro: playInv_mount playInv_step)

text \<open>
  C6, as stated, fails: after button 3 is pressed for the one-element sequence \<open>[2]\<close>
  the input \<open>[3]\<close> is as long as the sequence, yet the round is not completed (the state
  is \<open>failure\<close> and the input differs from the sequence).
\<close>

theorem equal_lengths_without_completion:
  "exec (firstRun @ [User 2100 (ButtonClick 3)]) (mount Map.empty) = Some firstMiss
   \<and> reachable firstMiss
   \<and> length (playerInput firstMiss) = length (sequence firstMiss)
   \<and> playerInput firstMiss \<noteq> sequence firstMiss
   \<and> gameState firstMiss = failure"
proof -
  have e: "exec (firstRun @ [User 2100 (ButtonClick 3)]) (mount Map.empty) = Some firstMiss"
    by (simp add: exec_append first_playback first_miss del: step.simps)
  from exec_reachable [OF reachable_mount e] e show ?thesis
    by (simp add: firstMiss_def)
qed

text \<open>
  C6, amended. In every state reached in play without restart or menu navigation the
  input is at most as long as the sequence. In \<open>success\<close> the input equals the
  sequence, so a completed round makes the lengths equal; but equal lengths only say
  that the state is \<open>idle\<close> (both empty), \<open>success\<close>, or \<open>failure\<close> after a mismatch at the
  last position.
\<close>

theorem input_never_longer:
  assumes "playReachable s"
  shows "length (playerInput s) \<le> length (sequence s)
    \<and> (gameState s = success \<longrightarrow> playerInput s = sequence s)
    \<and> (length (playerInput s) = length (sequence s) \<longrightarrow>
         gameState s = idle \<or> gameState s = success
         \<or> (gameState s = failure \<and> playerInput s \<noteq> sequence s))"
  using playReachable_playInv [OF assms]
  by (cases "gameState s") (auto simp add: playInv_def)

theorem input_never_longer_witness:
  "playReachable firstMiss
   \<and> length (playerInput firstMiss) \<le> length (sequence firstMiss)
   \<and> length (playerInput firstMiss) = length (sequence firstMiss)
   \<and> gameState firstMiss = failure \<and> playerInput firstMiss \<noteq> sequence firstMiss
   \<and> playReachable firstHit \<and> gameState firstHit = success
   \<and> playerInput firstHit = sequence firstHit"
proof -
  have v: "length (playerInput firstMiss) = length (sequence firstMiss)"
    "gameState firstMiss = failure" "gameState firstHit = success"
    by (simp_all add: firstMiss_def firstHit_def)
  from input_never_longer [OF playReachable_firstMiss]
    input_never_longer [OF playReachable_firstHit]
    playReachable_firstMiss playReachable_firstHit
  show ?thesis by (simp add: v)
qed

subsection \<open>Runs on which the engine leaves its intended behaviour\<close>

text \<open>
  C3 (a defect of the code). The playback's final timeout (handle 3, due at 2000) was
  armed by the first playback run before the restart. The restart at 1500 sets the
  cancellation flag; its own 50 ms callback starts the second playback run (interval
  5) and, with it, lowers the one shared flag again. At 2000 the first run's timeout
  therefore finds the flag lowered and moves the state from \<open>showing\<close> to \<open>input\<close>,
  while the second run has not yet shown its first element.
\<close>

theorem stale_transition_after_restart:
  "map_option timers (exec lastStepDone (mount Map.empty)) = Some [(3, 2000, EnterInput)]
   \<and> map_option isSequenceCancelled
        (exec (lastStepDone @ [User 1500 (ResetGame 1)]) (mount Map.empty)) = Some True
   \<and> map_option gameState (exec restartRun (mount Map.empty)) = Some showing
   \<and> map_option isSequenceCancelled (exec restartRun (mount Map.empty)) = Some False
   \<and> map_option timers (exec restartRun (mount Map.empty))
        = Some [(3, 2000, EnterInput), (5, 2250, SequenceStep [1] 0)]
   \<and> map_option gameState (exec (restartRun @ [Fire 0]) (mount Map.empty)) = Some input
   \<and> map_option timers (exec (restartRun @ [Fire 0]) (mount Map.empty))
        = Some [(5, 2250, SequenceStep [1] 0)]"
  by (simp add: lastStepDone_def restartRun_def mount_fresh run_defs)

text \<open>
  C8 (a defect of the code). The menu button is pressed while the settle delay of a
  failure is running (non-strict mode). The menu empties the sequence, but the settle
  callback is not cancelled: at 3600 it starts a playback of the sequence it captured,
  which ends by enabling input over the empty sequence. The next submission reads
  \<open>sequence[0]\<close> of the empty array: the read is out of range, and the input becomes
  longer than the sequence.
\<close>

theorem sequence_read_out_of_range:
  "map_option gameState (exec menuRun (mount Map.empty)) = Some input
   \<and> map_option sequence (exec menuRun (mount Map.empty)) = Some []
   \<and> map_option difficulty (exec menuRun (mount Map.empty)) = Some easy
   \<and> map_option (sequenceRead 0) (exec menuRun (mount Map.empty)) = Some None
   \<and> map_option gameState (exec (menuRun @ [User 5700 (ButtonClick 0)]) (mount Map.empty))
        = Some failure
   \<and> map_option playerInput (exec (menuRun @ [User 5700 (ButtonClick 0)]) (mount Map.empty))
        = Some [0]
   \<and> map_option sequence (exec (menuRun @ [User 5700 (ButtonClick 0)]) (mount Map.empty))
        = Some []"
  by (simp add: menuRun_def firstRun_def sequenceRead_def mount_fresh run_defs)

text \<open>
  In the first game the recovery after a mismatch is the intended one: button 3 is
  pressed at 2100, and at 3600 (1500 ms later) the input is empty, sequence and round
  are as before, the state is \<open>showing\<close> and the one pending timer is the playback of
  the same sequence at its first element; the playback shows button 2 at 4300 and
  enables input at 5600.
\<close>

lemma first_miss_replayed:
  "map_option clock (exec (firstRun @ [User 2100 (ButtonClick 3), Fire 0, Fire 0])
        (mount Map.empty)) = Some 3600
   \<and> map_option gameState (exec (firstRun @ [User 2100 (ButtonClick 3), Fire 0, Fire 0])
        (mount Map.empty)) = Some showing
   \<and> map_option sequence (exec (firstRun @ [User 2100 (ButtonClick 3), Fire 0, Fire 0])
        (mount Map.empty)) = Some [2]
   \<and> map_option currentRound (exec (firstRun @ [User 2100 (ButtonClick 3), Fire 0, Fire 0])
        (mount Map.empty)) = Some 1
   \<and> map_option playerInput (exec (firstRun @ [User 2100 (ButtonClick 3), Fire 0, Fire 0])
        (mount Map.empty)) = Some []
   \<and> map_option timers (exec (firstRun @ [User 2100 (ButtonClick 3), Fire 0, Fire 0])
        (mount Map.empty)) = Some [(6, 4300, SequenceStep [2] 0)]
   \<and> map_option showingIndex
        (exec (firstRun @ [User 2100 (ButtonClick 3), Fire 0, Fire 0, Fire 0])
           (mount Map.empty)) = Some 2
   \<and> map_option gameState
        (exec (firstRun @ [User 2100 (ButtonClick 3), Fire 0, Fire 0, Fire 0, Fire 0, Fire 0,
                           Fire 0]) (mount Map.empty)) = Some input
   \<and> map_option clock
        (exec (firstRun @ [User 2100 (ButtonClick 3), Fire 0, Fire 0, Fire 0, Fire 0, Fire 0,
                           Fire 0]) (mount Map.empty)) = Some 5600
   \<and> map_option timers
        (exec (firstRun @ [User 2100 (ButtonClick 3), Fire 0, Fire 0, Fire 0, Fire 0, Fire 0,
                           Fire 0]) (mount Map.empty)) = Some []"
  by (simp add: firstRun_def mount_fresh run_defs)

text \<open>
  C4 (a defect of the code). After a restart the recovery is not the intended one. The
  restart at 1500 leaves the first playback's timeout pending (the run of C3), so input
  is enabled at 2000 while the second playback is still running. Button 1, pressed at
  3000, completes the round and arms the next round for 3800. At 3550 the second
  playback's own timeout enables input once more (it sets the state whatever the state
  is), with the input still \<open>[1]\<close>. Button 0, pressed at 3600, is a mismatch, in
  non-strict mode. Before its settle delay is over the pending next round appends 2
  to the sequence and sets the round to 2. At 5100, 1500 ms after the mismatch, the
  input is empty and the state is \<open>showing\<close>, but the sequence is \<open>[1, 2]\<close> and the round
  is 2 (they were \<open>[1]\<close> and 1 at the mismatch), and the playback that has just been
  started is of the sequence \<open>[1]\<close> the settle callback captured, not of the sequence.
\<close>

theorem failure_settle_finds_next_round:
  "map_option gameState (exec reenabledRun (mount Map.empty)) = Some input
   \<and> map_option strictMode (exec reenabledRun (mount Map.empty)) = Some False
   \<and> map_option sequence (exec reenabledRun (mount Map.empty)) = Some [1]
   \<and> map_option currentRound (exec reenabledRun (mount Map.empty)) = Some 1
   \<and> map_option playerInput (exec reenabledRun (mount Map.empty)) = Some [1]
   \<and> map_option timers (exec reenabledRun (mount Map.empty))
        = Some [(9, 3800, NextRound 1 [1] easy None)]
   \<and> map_option gameState (exec (reenabledRun @ [User 3600 (ButtonClick 0)])
        (mount Map.empty)) = Some failure
   \<and> map_option clock (exec lateMissRun (mount Map.empty)) = Some 5100
   \<and> map_option gameState (exec lateMissRun (mount Map.empty)) = Some showing
   \<and> map_option playerInput (exec lateMissRun (mount Map.empty)) = Some []
   \<and> map_option sequence (exec lateMissRun (mount Map.empty)) = Some [1, 2]
   \<and> map_option currentRound (exec lateMissRun (mount Map.empty)) = Some 2
   \<and> map_option timers (exec lateMissRun (mount Map.empty))
        = Some [(14, 5800, SequenceStep [1] 0)]"
  by (simp add: lateMissRun_def reenabledRun_def earlyInputRun_def restartRun_def
      lastStepDone_def mount_fresh run_defs)

text \<open>
  In the first game a completed round grows as intended: button 2 is pressed at 2100,
  and at 2900 (800 ms later) the drawn index 1 is appended, the one pending timer is
  the playback of \<open>[2, 1]\<close> at its first element; the playback shows button 2 at 3600,
  button 1 at 4300, and enables input at 5600.
\<close>

lemma first_hit_replayed:
  "map_option clock (exec (firstRun @ [User 2100 (ButtonClick 2), Fire 0, Fire 1])
        (mount Map.empty)) = Some 2900
   \<and> map_option gameState (exec (firstRun @ [User 2100 (ButtonClick 2), Fire 0, Fire 1])
        (mount Map.empty)) = Some showing
   \<and> map_option sequence (exec (firstRun @ [User 2100 (ButtonClick 2), Fire 0, Fire 1])
        (mount Map.empty)) = Some [2, 1]
   \<and> map_option currentRound (exec (firstRun @ [User 2100 (ButtonClick 2), Fire 0, Fire 1])
        (mount Map.empty)) = Some 2
   \<and> map_option playerInput (exec (firstRun @ [User 2100 (ButtonClick 2), Fire 0, Fire 1])
        (mount Map.empty)) = Some []
   \<and> map_option timers (exec (firstRun @ [User 2100 (ButtonClick 2), Fire 0, Fire 1])
        (mount Map.empty)) = Some [(6, 3600, SequenceStep [2, 1] 0)]
   \<and> map_option showingIndex
        (exec (firstRun @ [User 2100 (ButtonClick 2), Fire 0, Fire 1, Fire 0])
           (mount Map.empty)) = Some 2
   \<and> map_option showingIndex
        (exec (firstRun @ [User 2100 (ButtonClick 2), Fire 0, Fire 1, Fire 0, Fire 0, Fire 0])
           (mount Map.empty)) = Some 1
   \<and> map_option gameState
        (exec (firstRun @ [User 2100 (ButtonClick 2), Fire 0, Fire 1, Fire 0, Fire 0, Fire 0,
                           Fire 0, Fire 0, Fire 0]) (mount Map.empty)) = Some input
   \<and> map_option clock
        (exec (firstRun @ [User 2100 (ButtonClick 2), Fire 0, Fire 1, Fire 0, Fire 0, Fire 0,
                           Fire 0, Fire 0, Fire 0]) (mount Map.empty)) = Some 5600"
  by (simp add: firstRun_def mount_fresh run_defs)

text \<open>
  C5 (a defect of the code). After a restart the playback of the extended sequence can
  be lost. As before, the restart at 1500 lets input be enabled at 2000 while the
  second playback is running. The wrong button 0 is pressed at 3000, which arms the
  failure's settle callback for 4500, with the sequence \<open>[1]\<close>. The restart button is
  pressed at 3100 (drawing 3): it does not cancel that settle callback, nor the second
  playback's timeout, which enables input at 3550. Button 3, pressed at 3600,
  completes the round. At 4400, 800 ms later, the sequence is \<open>[3, 0]\<close>, the round is 2,
  the input is empty, the state is \<open>showing\<close> and the playback of \<open>[3, 0]\<close> is armed at
  its first element, due at 5100. At 4500 the settle callback of the failure starts a
  playback of \<open>[1]\<close>, and the playback of \<open>[3, 0]\<close> is cleared before its first step: what
  is shown (at 5200) is button 1, and input is enabled at 6500 with no element of
  \<open>[3, 0]\<close> ever shown.
\<close>

theorem round_playback_overtaken:
  "map_option gameState
        (exec (earlyInputRun @ [User 3000 (ButtonClick 0), User 3100 (ResetGame 3),
                                Fire 0, Fire 0, User 3600 (ButtonClick 3)])
           (mount Map.empty)) = Some success
   \<and> map_option sequence
        (exec (earlyInputRun @ [User 3000 (ButtonClick 0), User 3100 (ResetGame 3),
                                Fire 0, Fire 0, User 3600 (ButtonClick 3)])
           (mount Map.empty)) = Some [3]
   \<and> map_option clock (exec overtakenRun (mount Map.empty)) = Some 4400
   \<and> map_option gameState (exec overtakenRun (mount Map.empty)) = Some showing
   \<and> map_option sequence (exec overtakenRun (mount Map.empty)) = Some [3, 0]
   \<and> map_option currentRound (exec overtakenRun (mount Map.empty)) = Some 2
   \<and> map_option playerInput (exec overtakenRun (mount Map.empty)) = Some []
   \<and> map_option timers (exec overtakenRun (mount Map.empty))
        = Some [(9, 4500, ReplaySequence [1] None), (14, 5100, SequenceStep [3, 0] 0)]
   \<and> map_option timers (exec (overtakenRun @ [Fire 0]) (mount Map.empty))
        = Some [(15, 5200, SequenceStep [1] 0)]
   \<and> map_option sequence (exec (overtakenRun @ [Fire 0]) (mount Map.empty)) = Some [3, 0]
   \<and> map_option showingIndex (exec (overtakenRun @ [Fire 0, Fire 0]) (mount Map.empty))
        = Some 1
   \<and> map_option clock (exec (overtakenRun @ [Fire 0, Fire 0]) (mount Map.empty))
        = Some 5200
   \<and> map_option gameState
        (exec (overtakenRun @ [Fire 0, Fire 0, Fire 0, Fire 0, Fire 0]) (mount Map.empty))
        = Some input
   \<and> map_option clock
        (exec (overtakenRun @ [Fire 0, Fire 0, Fire 0, Fire 0, Fire 0]) (mount Map.empty))
        = Some 6500
   \<and> map_option timers
        (exec (overtakenRun @ [Fire 0, Fire 0, Fire 0, Fire 0, Fire 0]) (mount Map.empty))
        = Some []"
  by (simp add: overtakenRun_def earlyInputRun_def restartRun_def
      lastStepDone_def mount_fresh run_defs)

text \<open>
  C7 (a defect of the code). A game on \<open>easy\<close> reaches round 2, so 2 is stored for \<open>easy\<close>
  and held in \<open>bestScore\<close>. Nothing is stored for \<open>medium\<close>, so choosing \<open>medium\<close> leaves
  \<open>bestScore\<close> at 2. A game on \<open>medium\<close> then shows round 1 and round 2, and neither is
  ever stored for \<open>medium\<close>.
\<close>

theorem best_score_not_stored:
  "map_option difficulty (exec mediumStart (mount Map.empty)) = Some medium
   \<and> map_option currentRound (exec mediumStart (mount Map.empty)) = Some 1
   \<and> map_option bestScore (exec mediumStart (mount Map.empty)) = Some 2
   \<and> map_option (storedBest easy) (exec mediumStart (mount Map.empty)) = Some (Some 2)
   \<and> map_option (storedBest medium) (exec mediumStart (mount Map.empty)) = Some None
   \<and> map_option difficulty (exec mediumRun (mount Map.empty)) = Some medium
   \<and> map_option gameState (exec mediumRun (mount Map.empty)) = Some showing
   \<and> map_option currentRound (exec mediumRun (mount Map.empty)) = Some 2
   \<and> map_option (storedBest medium) (exec mediumRun (mount Map.empty)) = Some None"
  by (simp add: mediumRun_def mediumStart_def firstRun_def storedBest_def mount_fresh run_defs)

end
